theory Spec2Isabelle
  imports Main "HOL-Library.Multiset" "HOL-Library.Word"
begin

section \<open>The platform and the manager object\<close>

text \<open>
  The library is glue over the Arduino WiFi, web-server and DNS classes. What those classes
  answer is an input of the model: the record \<open>platform\<close> holds the answers the modelled
  member functions read. \<open>WiFi_SSID\<close> and \<open>WiFi_RSSI\<close> are the driver's per-index accessors
  after a scan; they are arbitrary functions of the index, so nothing is assumed about what
  the driver answers for an index outside the scan (the code does ask it for index \<open>-1\<close>).
  \<open>malloc_succeeds\<close> says whether a request of that many bytes is served.

  C \<open>int\<close> values are modelled as \<open>int\<close>: the only arithmetic on them is
  \<open>2 * (RSSI + 100)\<close>, evaluated for \<open>-100 < RSSI < -50\<close> only, and the scan count the
  driver hands over is an 8- or 16-bit quantity, so \<open>n * sizeof(int)\<close> stays far below the
  range of \<open>size_t\<close>. The \<open>unsigned long\<close> timeouts are 32-bit words.
\<close>

record platform =
  WiFi_scanNetworks :: int
  WiFi_SSID :: "int \<Rightarrow> string"
  WiFi_RSSI :: "int \<Rightarrow> int"
  malloc_succeeds :: "nat \<Rightarrow> bool"
  WiFi_getAutoConnect :: bool
  dnsServer_allocated :: bool
  millis :: "32 word"

text \<open>
  An \<open>int *\<close>: the null pointer, a block of ints on the heap (the model keeps its contents),
  or an indeterminate value (an uninitialised or stale pointer).
\<close>

datatype int_ptr = Null | Wild | Block "int list"

text \<open>Calls into the platform that change it, in the order they are made.\<close>

datatype call =
    WiFi_setAutoConnect
  | DNS_start
  | WiFi_softAPConfig
  | WiFi_softAP string
  | WiFi_softAP_password string string
  | Server_on string
  | Server_onNotFound
  | Server_begin
  | Server_sendHeader string
  | Server_send nat
  | Client_stop
  | Delay nat
  | Malloc nat
  | Free int_ptr

text \<open>
  The members of \<open>ESP_WiFiManager\<close> the modelled functions read or write (the leading
  underscore of the C++ names is dropped). \<open>apPassword\<close> is a \<open>const char *\<close> that may be
  \<open>NULL\<close>; \<open>ap_static_ip\<close> is an \<open>IPAddress\<close>, tested for being non-zero. The custom
  parameters and the static station addresses are not part of the record. \<open>calls\<close> is the
  log of the platform calls made so far.
\<close>

record manager =
  apName :: string
  apPassword :: "string option"
  ap_static_ip :: "32 word"
  configPortalTimeout :: "32 word"
  configPortalStart :: "32 word"
  minimumQuality :: int
  removeDuplicateAPs :: bool
  connect :: bool
  stopConfigPortal :: bool
  ssid :: string
  pass :: string
  numberOfNetworks :: int
  networkIndices :: int_ptr
  calls :: "call list"

section \<open>Signal quality\<close>

definition getRSSIasQuality :: "int \<Rightarrow> int" where
  "getRSSIasQuality RSSI =
     (if RSSI \<le> -100 then 0
      else if RSSI \<ge> -50 then 100
      else 2 * (RSSI + 100))"

section \<open>Scanning: \<open>scanWifiNetworks\<close>\<close>

text \<open>
  The index array is an \<open>int list\<close> of \<open>n\<close> slots. Each \<open>for (int i = a; i < n; i++)\<close> of
  the source neither changes its counter nor its bound in the body, so it is a \<open>fold\<close> of the
  body over \<open>[a..<n]\<close>. Every slot the loops read or write is below \<open>n\<close>, the length of the
  array.
\<close>

definition swap :: "nat \<Rightarrow> nat \<Rightarrow> int list \<Rightarrow> int list" where
  "swap i j indices = indices[i := indices ! j, j := indices ! i]"

definition sort_inner :: "platform \<Rightarrow> nat \<Rightarrow> nat \<Rightarrow> int list \<Rightarrow> int list" where
  "sort_inner w n i indices =
     fold (\<lambda>j indices.
             if WiFi_RSSI w (indices ! j) > WiFi_RSSI w (indices ! i)
             then swap i j indices else indices)
          [i + 1..<n] indices"

definition rssi_sort :: "platform \<Rightarrow> nat \<Rightarrow> int list \<Rightarrow> int list" where
  "rssi_sort w n indices = fold (sort_inner w n) [0..<n] indices"

definition mark_dups :: "platform \<Rightarrow> nat \<Rightarrow> string \<Rightarrow> nat \<Rightarrow> int list \<Rightarrow> int list" where
  "mark_dups w n cssid i indices =
     fold (\<lambda>j indices.
             if cssid = WiFi_SSID w (indices ! j) then indices[j := -1] else indices)
          [i + 1..<n] indices"

definition remove_duplicates :: "platform \<Rightarrow> nat \<Rightarrow> int list \<Rightarrow> int list" where
  "remove_duplicates w n indices =
     fold (\<lambda>i indices.
             if indices ! i = -1 then indices
             else mark_dups w n (WiFi_SSID w (indices ! i)) i indices)
          [0..<n] indices"

definition quality_filter :: "manager \<Rightarrow> platform \<Rightarrow> nat \<Rightarrow> int list \<Rightarrow> int list" where
  "quality_filter m w n indices =
     fold (\<lambda>i indices.
             if indices ! i = -1 then indices
             else (let quality = getRSSIasQuality (WiFi_RSSI w (indices ! i))
                   in if \<not> (minimumQuality m = -1 \<or> minimumQuality m < quality)
                      then indices[i := -1] else indices))
          [0..<n] indices"

text \<open>
  What a call of \<open>scanWifiNetworks(indicesptr)\<close> leaves behind: the value returned, the
  value of \<open>*indicesptr\<close> afterwards, and the sizes passed to \<open>malloc\<close>.
\<close>

record scan_outcome =
  returned :: int
  indicesptr :: int_ptr
  malloc_calls :: "nat list"

text \<open>The three steps applied to the freshly filled array, \<open>sizeof(int) = 4\<close>.\<close>

definition consolidate :: "manager \<Rightarrow> platform \<Rightarrow> nat \<Rightarrow> int list" where
  "consolidate m w n =
     (let indices = map int [0..<n];
          indices = rssi_sort w n indices;
          indices = (if removeDuplicateAPs m then remove_duplicates w n indices else indices)
      in quality_filter m w n indices)"

definition scanWifiNetworks :: "manager \<Rightarrow> platform \<Rightarrow> int_ptr \<Rightarrow> scan_outcome" where
  "scanWifiNetworks m w old =
     (let n = WiFi_scanNetworks w
      in if n \<le> 0
         then \<lparr>returned = 0, indicesptr = old, malloc_calls = []\<rparr>
         else if \<not> malloc_succeeds w (nat n * 4)
         then \<lparr>returned = 0, indicesptr = Null, malloc_calls = [nat n * 4]\<rparr>
         else \<lparr>returned = n, indicesptr = Block (consolidate m w (nat n)),
               malloc_calls = [nat n * 4]\<rparr>)"

section \<open>The host name: \<open>getRFC952_hostname\<close>\<close>










section \<open>The configuration portal\<close>

text \<open>
  \<open>DEBUG_WM\<close> only prints; it is left out. The pages the handlers assemble are built from
  templates of the header and are not modelled: a response is logged with its status code.
\<close>

definition do_calls :: "call list \<Rightarrow> manager \<Rightarrow> manager" where
  "do_calls cs m = m\<lparr>calls := calls m @ cs\<rparr>"

definition setConfigPortalTimeout :: "32 word \<Rightarrow> manager \<Rightarrow> manager" where
  "setConfigPortalTimeout seconds m = m\<lparr>configPortalTimeout := seconds * 1000\<rparr>"

definition setupConfigPortal :: "platform \<Rightarrow> manager \<Rightarrow> manager" where
  "setupConfigPortal w m =
     (let m = m\<lparr>stopConfigPortal := False\<rparr>;
          m = (if \<not> WiFi_getAutoConnect w then do_calls [WiFi_setAutoConnect] m else m);
          m = (if dnsServer_allocated w then do_calls [DNS_start] m else m);
          m = m\<lparr>configPortalStart := millis w\<rparr>;
          m = (case apPassword m of
                 None \<Rightarrow> m
               | Some p \<Rightarrow>
                   if length p < 8 \<or> length p > 63 then m\<lparr>apPassword := None\<rparr> else m);
          m = (if ap_static_ip m \<noteq> 0 then do_calls [WiFi_softAPConfig] m else m);
          m = (case apPassword m of
                 Some p \<Rightarrow> do_calls [WiFi_softAP_password (apName m) p] m
               | None \<Rightarrow> do_calls [WiFi_softAP (apName m)] m);
          m = do_calls [Delay 500] m
      in do_calls [Server_on ''/'', Server_on ''/wifi'', Server_on ''/wifisave'',
                   Server_on ''/close'', Server_on ''/i'', Server_on ''/r'',
                   Server_on ''/state'', Server_on ''/scan'', Server_onNotFound,
                   Server_begin] m)"

text \<open>What a handler reads of the request being served.\<close>

record request =
  hostHeader :: string
  arg :: "string \<Rightarrow> string"

fun isIp :: "string \<Rightarrow> bool" where
  "isIp [] = True"
| "isIp (c # str) =
     (if c \<noteq> CHR ''.'' \<and> ((of_char c :: nat) < 48 \<or> (of_char c :: nat) > 57)
      then False else isIp str)"

definition captivePortal :: "request \<Rightarrow> manager \<Rightarrow> bool \<times> manager" where
  "captivePortal req m =
     (if \<not> isIp (hostHeader req)
      then (True, do_calls [Server_sendHeader ''Location'', Server_send 302, Client_stop] m)
      else (False, m))"

definition no_cache_headers :: "call list" where
  "no_cache_headers =
     [Server_sendHeader ''Cache-Control'', Server_sendHeader ''Pragma'',
      Server_sendHeader ''Expires'']"

definition handleRoot :: "request \<Rightarrow> manager \<Rightarrow> manager" where
  "handleRoot req m =
     (let m = m\<lparr>configPortalTimeout := 0\<rparr>
      in case captivePortal req m of
           (True, m) \<Rightarrow> m
         | (False, m) \<Rightarrow> do_calls (no_cache_headers @ [Server_send 200]) m)"

text \<open>
  The loop of \<open>handleWifi\<close> and \<open>handleScan\<close> that lists the networks runs over the
  slots below the returned count, skips the sentinel and ends each listed network with
  \<open>delay(0)\<close>. The count is positive only when the pointer is the fresh array.
\<close>

definition list_networks :: "int \<Rightarrow> int_ptr \<Rightarrow> call list" where
  "list_networks n p =
     (case p of
        Block indices \<Rightarrow>
          concat (map (\<lambda>i. if indices ! i = -1 then [] else [Delay 0]) [0..<nat n])
      | _ \<Rightarrow> [])"

definition handleWifi :: "platform \<Rightarrow> manager \<Rightarrow> manager" where
  "handleWifi w m =
     (let m = m\<lparr>configPortalTimeout := 0\<rparr>;
          m = do_calls no_cache_headers m;
          r = scanWifiNetworks m w (networkIndices m);
          m = do_calls (map Malloc (malloc_calls r)) m;
          m = m\<lparr>numberOfNetworks := returned r, networkIndices := indicesptr r\<rparr>;
          m = do_calls (list_networks (numberOfNetworks m) (networkIndices m)) m
      in do_calls [Server_send 200] m)"

definition handleWifiSave :: "32 word \<Rightarrow> request \<Rightarrow> manager \<Rightarrow> manager" where
  "handleWifiSave DEFAULT_PORTAL_TIMEOUT req m =
     (let m = m\<lparr>ssid := arg req ''s'', pass := arg req ''p''\<rparr>;
          m = do_calls [Server_send 200] m;
          m = m\<lparr>connect := True\<rparr>
      in m\<lparr>configPortalTimeout := DEFAULT_PORTAL_TIMEOUT\<rparr>)"

definition handleServerClose :: "32 word \<Rightarrow> manager \<Rightarrow> manager" where
  "handleServerClose DEFAULT_PORTAL_TIMEOUT m =
     (let m = do_calls (no_cache_headers @ [Server_send 200]) m
      in m\<lparr>configPortalTimeout := DEFAULT_PORTAL_TIMEOUT\<rparr>)"

definition handleInfo :: "manager \<Rightarrow> manager" where
  "handleInfo m =
     (let m = m\<lparr>configPortalTimeout := 0\<rparr>
      in do_calls (no_cache_headers @ [Server_send 200]) m)"

text \<open>
  \<open>handleScan\<close> declares \<open>int *indices\<close> without a value; \<open>garbage\<close> is what the variable
  happens to hold when \<open>scanWifiNetworks\<close> is called.
\<close>

definition handleScan :: "int_ptr \<Rightarrow> platform \<Rightarrow> manager \<Rightarrow> manager" where
  "handleScan garbage w m =
     (let m = m\<lparr>configPortalTimeout := 0\<rparr>;
          m = do_calls no_cache_headers m;
          r = scanWifiNetworks m w garbage;
          m = do_calls (map Malloc (malloc_calls r)) m;
          n = returned r;
          indices = indicesptr r;
          m = do_calls (list_networks n indices) m;
          m = (if indices \<noteq> Null then do_calls [Free indices] m else m)
      in do_calls [Server_send 200] m)"

section \<open>Example inputs and notions used in the proofs\<close>

text \<open>
  A platform whose scan found the given access points (SSID and RSSI, in scan order), with
  a heap that serves every request or none.
\<close>

definition access_points :: "(string \<times> int) list \<Rightarrow> bool \<Rightarrow> platform" where
  "access_points aps heap =
     \<lparr>WiFi_scanNetworks = int (length aps),
      WiFi_SSID = (\<lambda>i. if 0 \<le> i \<and> i < int (length aps) then fst (aps ! nat i) else []),
      WiFi_RSSI = (\<lambda>i. if 0 \<le> i \<and> i < int (length aps) then snd (aps ! nat i) else 0),
      malloc_succeeds = (\<lambda>_. heap),
      WiFi_getAutoConnect = True,
      dnsServer_allocated = True,
      millis = 0\<rparr>"

definition example_manager :: manager where
  "example_manager =
     \<lparr>apName = ''ESP_1234'', apPassword = None, ap_static_ip = 0,
      configPortalTimeout = 0, configPortalStart = 0,
      minimumQuality = -1, removeDuplicateAPs = True,
      connect = False, stopConfigPortal = False, ssid = [], pass = [],
      numberOfNetworks = 0, networkIndices = Null, calls = []\<rparr>"

text \<open>The index array after the sort step alone.\<close>

definition sorted_indices :: "platform \<Rightarrow> nat \<Rightarrow> int list" where
  "sorted_indices w n = rssi_sort w n (map int [0..<n])"

text \<open>Slot \<open>j\<close> of \<open>xs\<close> repeats the SSID of an earlier slot below \<open>k\<close>.\<close>

definition dup_below :: "platform \<Rightarrow> int list \<Rightarrow> nat \<Rightarrow> nat \<Rightarrow> bool" where
  "dup_below w xs k j \<longleftrightarrow> (\<exists>i. i < k \<and> i < j \<and> WiFi_SSID w (xs ! i) = WiFi_SSID w (xs ! j))"

text \<open>The test of the quality step, for the scan index \<open>x\<close>.\<close>

definition excluded :: "manager \<Rightarrow> platform \<Rightarrow> int \<Rightarrow> bool" where
  "excluded m w x \<longleftrightarrow>
     \<not> (minimumQuality m = -1 \<or> minimumQuality m < getRSSIasQuality (WiFi_RSSI w x))"


section \<open>The sort step\<close>

lemma length_swap: "length (swap i j xs) = length xs"
  by (simp add: swap_def)

lemma mset_swap_slots: "i < length xs \<Longrightarrow> j < length xs \<Longrightarrow> mset (swap i j xs) = mset xs"
  unfolding swap_def by (rule mset_swap)

lemma sort_inner_inv:
  assumes "i < length xs" "m \<le> length xs"
  shows "length (sort_inner w m i xs) = length xs \<and>
         mset (sort_inner w m i xs) = mset xs \<and>
         take i (sort_inner w m i xs) = take i xs \<and>
         (\<forall>k. i < k \<and> k < m \<longrightarrow>
            WiFi_RSSI w (sort_inner w m i xs ! k) \<le> WiFi_RSSI w (sort_inner w m i xs ! i))"
  using assms
proof (induction m)
  case 0
  then show ?case by (simp add: sort_inner_def)
next
  case (Suc m)
  show ?case
  proof (cases "i < m")
    case False
    then have "sort_inner w (Suc m) i xs = xs" by (simp add: sort_inner_def)
    moreover have "\<And>k. i < k \<Longrightarrow> k < Suc m \<Longrightarrow> False" using False by simp
    ultimately show ?thesis by auto
  next
    case True
    define r where "r = sort_inner w m i xs"
    have m: "m < length xs" using Suc.prems by simp
    have ih: "length r = length xs" "mset r = mset xs" "take i r = take i xs"
      "\<And>k. i < k \<Longrightarrow> k < m \<Longrightarrow> WiFi_RSSI w (r ! k) \<le> WiFi_RSSI w (r ! i)"
      using Suc.IH Suc.prems by (simp_all add: r_def)
    have step: "sort_inner w (Suc m) i xs =
      (if WiFi_RSSI w (r ! m) > WiFi_RSSI w (r ! i) then swap i m r else r)"
      using True by (simp add: sort_inner_def r_def)
    show ?thesis
    proof (cases "WiFi_RSSI w (r ! m) > WiFi_RSSI w (r ! i)")
      case False
      then have eq: "sort_inner w (Suc m) i xs = r" using step by simp
      have "\<And>k. i < k \<Longrightarrow> k < Suc m \<Longrightarrow> WiFi_RSSI w (r ! k) \<le> WiFi_RSSI w (r ! i)"
        using ih(4) False by (metis less_Suc_eq not_less)
      then show ?thesis using ih eq by simp
    next
      case gt: True
      then have eq: "sort_inner w (Suc m) i xs = swap i m r" using step by simp
      have i: "i < length r" and m': "m < length r" using Suc.prems m ih(1) by simp_all
      have s_i: "swap i m r ! i = r ! m" using i m' True by (simp add: swap_def nth_list_update)
      have s_m: "swap i m r ! m = r ! i" using i m' True by (simp add: swap_def nth_list_update)
      have s_k: "\<And>k. k \<noteq> i \<Longrightarrow> k \<noteq> m \<Longrightarrow> swap i m r ! k = r ! k"
        by (simp add: swap_def)
      have tk: "take i (swap i m r) = take i r" using True by (simp add: swap_def)
      have "\<And>k. i < k \<Longrightarrow> k < Suc m \<Longrightarrow>
              WiFi_RSSI w (swap i m r ! k) \<le> WiFi_RSSI w (swap i m r ! i)"
      proof -
        fix k assume k: "i < k" "k < Suc m"
        show "WiFi_RSSI w (swap i m r ! k) \<le> WiFi_RSSI w (swap i m r ! i)"
        proof (cases "k = m")
          case True
          then show ?thesis using s_i s_m gt by simp
        next
          case False
          then have "k < m" using k by simp
          then have "WiFi_RSSI w (r ! k) \<le> WiFi_RSSI w (r ! i)" using ih(4) k by simp
          moreover have "swap i m r ! k = r ! k" using s_k k False by simp
          ultimately show ?thesis using s_i gt by simp
        qed
      qed
      then show ?thesis
        using eq ih tk mset_swap_slots [OF i m'] by (simp add: length_swap)
    qed
  qed
qed


lemma in_set_drop_nth:
  "x \<in> set (drop k xs) \<Longrightarrow> \<exists>b. k \<le> b \<and> b < length xs \<and> x = xs ! b"
proof -
  assume "x \<in> set (drop k xs)"
  then obtain a where a: "a < length (drop k xs)" "x = drop k xs ! a"
    by (auto simp: in_set_conv_nth)
  then have "k + a < length xs" "x = xs ! (k + a)" by simp_all
  then show ?thesis by (metis le_add1)
qed

lemma mset_drop_eq:
  assumes "mset r' = mset r" "take k r' = take k r"
  shows "mset (drop k r') = mset (drop k r)"
proof -
  have "mset (take k r') + mset (drop k r') = mset (take k r) + mset (drop k r)"
    using assms(1) by (metis append_take_drop_id mset_append)
  then show ?thesis using assms(2) by simp
qed

lemma rssi_sort_inv:
  assumes "k \<le> length xs"
  shows "length (fold (sort_inner w (length xs)) [0..<k] xs) = length xs \<and>
         mset (fold (sort_inner w (length xs)) [0..<k] xs) = mset xs \<and>
         (\<forall>a b. a < k \<and> a < b \<and> b < length xs \<longrightarrow>
            WiFi_RSSI w (fold (sort_inner w (length xs)) [0..<k] xs ! b)
              \<le> WiFi_RSSI w (fold (sort_inner w (length xs)) [0..<k] xs ! a))"
  using assms
proof (induction k)
  case 0
  then show ?case by simp
next
  case (Suc k)
  define n where "n = length xs"
  define r where "r = fold (sort_inner w n) [0..<k] xs"
  define r' where "r' = sort_inner w n k r"
  have k: "k < n" using Suc.prems by (simp add: n_def)
  have ih: "length r = n" "mset r = mset xs"
    "\<And>a b. a < k \<Longrightarrow> a < b \<Longrightarrow> b < n \<Longrightarrow> WiFi_RSSI w (r ! b) \<le> WiFi_RSSI w (r ! a)"
    using Suc.IH Suc.prems by (simp_all add: r_def n_def)
  have eq: "fold (sort_inner w (length xs)) [0..<Suc k] xs = r'"
    by (simp add: r'_def r_def n_def)
  have inner: "length r' = length r" "mset r' = mset r" "take k r' = take k r"
    "\<And>j. k < j \<Longrightarrow> j < n \<Longrightarrow> WiFi_RSSI w (r' ! j) \<le> WiFi_RSSI w (r' ! k)"
    using sort_inner_inv [of k r n w] k ih(1) by (simp_all add: r'_def)
  have below: "\<And>a. a < k \<Longrightarrow> r' ! a = r ! a"
    using inner(3) by (metis nth_take)
  have "\<And>a b. a < Suc k \<Longrightarrow> a < b \<Longrightarrow> b < n \<Longrightarrow>
          WiFi_RSSI w (r' ! b) \<le> WiFi_RSSI w (r' ! a)"
  proof -
    fix a b assume ab: "a < Suc k" "a < b" "b < n"
    show "WiFi_RSSI w (r' ! b) \<le> WiFi_RSSI w (r' ! a)"
    proof (cases "a = k")
      case True
      then show ?thesis using inner(4) ab by simp
    next
      case False
      then have a: "a < k" using ab by simp
      show ?thesis
      proof (cases "b < k")
        case True
        then show ?thesis using below a ih(3) ab by simp
      next
        case False
        then have "r' ! b \<in> set (drop k r')"
          using ab inner(1) ih(1) by (auto simp: in_set_conv_nth intro!: exI [of _ "b - k"])
        then have "r' ! b \<in> set (drop k r)"
          using mset_drop_eq [OF inner(2) inner(3)] by (metis set_mset_mset)
        then have "\<exists>b'. k \<le> b' \<and> b' < length r \<and> r' ! b = r ! b'"
          by (rule in_set_drop_nth)
        then obtain b' where b': "k \<le> b'" "b' < length r" "r' ! b = r ! b'"
          by blast
        have "a < b'" "b' < n" using a b'(1,2) ih(1) by simp_all
        then have "WiFi_RSSI w (r ! b') \<le> WiFi_RSSI w (r ! a)"
          using ih(3) [of a b'] a by blast
        then show ?thesis using b'(3) below [OF a] by simp
      qed
    qed
  qed
  then have srt: "\<forall>a b. a < Suc k \<and> a < b \<and> b < length xs \<longrightarrow>
      WiFi_RSSI w (r' ! b) \<le> WiFi_RSSI w (r' ! a)"
    unfolding n_def by blast
  have len: "length r' = length xs" using inner(1) ih(1) by (simp add: n_def)
  have ms: "mset r' = mset xs" using inner(2) ih(2) by simp
  show ?case unfolding eq using len ms srt by blast
qed

lemma rssi_sort_sorted:
  assumes "length xs = n" "a < b" "b < n"
  shows "WiFi_RSSI w (rssi_sort w n xs ! b) \<le> WiFi_RSSI w (rssi_sort w n xs ! a)"
  using rssi_sort_inv [of n xs w] assms by (simp add: rssi_sort_def)

lemma rssi_sort_length: "length xs = n \<Longrightarrow> length (rssi_sort w n xs) = n"
  using rssi_sort_inv [of n xs w] by (simp add: rssi_sort_def)

lemma rssi_sort_mset: "length xs = n \<Longrightarrow> mset (rssi_sort w n xs) = mset xs"
  using rssi_sort_inv [of n xs w] by (simp add: rssi_sort_def)

section \<open>The duplicate-removal step\<close>

lemma mark_dups_upto:
  assumes "m \<le> length xs"
  shows "fold (\<lambda>j indices. if c = WiFi_SSID w (indices ! j) then indices[j := -1] else indices)
           [Suc i..<m] xs
         = map (\<lambda>j. if i < j \<and> j < m \<and> c = WiFi_SSID w (xs ! j) then -1 else xs ! j)
             [0..<length xs]"
  using assms
proof (induction m)
  case 0
  then show ?case by (simp add: map_nth)
next
  case (Suc m)
  let ?g = "\<lambda>j indices. if c = WiFi_SSID w (indices ! j) then indices[j := -1] else indices"
  let ?R = "\<lambda>m. map (\<lambda>j. if i < j \<and> j < m \<and> c = WiFi_SSID w (xs ! j) then -1 else xs ! j)
             [0..<length xs]"
  have m: "m < length xs" using Suc.prems by simp
  have ih: "fold ?g [Suc i..<m] xs = ?R m" using Suc.IH m by simp
  show ?case
  proof (cases "i < m")
    case False
    then have "fold ?g [Suc i..<Suc m] xs = xs" by simp
    moreover have "?R (Suc m) = xs" using False by (auto intro!: nth_equalityI)
    ultimately show ?thesis by simp
  next
    case True
    then have "fold ?g [Suc i..<Suc m] xs = ?g m (?R m)" using ih by simp
    moreover have "?R m ! m = xs ! m" using m by simp
    ultimately have eq: "fold ?g [Suc i..<Suc m] xs =
      (if c = WiFi_SSID w (xs ! m) then (?R m)[m := -1] else ?R m)" by simp
    have "(if c = WiFi_SSID w (xs ! m) then (?R m)[m := -1] else ?R m) = ?R (Suc m)"
      using True m by (auto intro!: nth_equalityI simp: nth_list_update less_Suc_eq)
    then show ?thesis using eq by simp
  qed
qed

lemma mark_dups_char:
  assumes "length xs = n"
  shows "mark_dups w n c i xs
         = map (\<lambda>j. if i < j \<and> c = WiFi_SSID w (xs ! j) then -1 else xs ! j) [0..<n]"
proof -
  have "mark_dups w n c i xs
     = map (\<lambda>j. if i < j \<and> j < n \<and> c = WiFi_SSID w (xs ! j) then -1 else xs ! j) [0..<n]"
    using mark_dups_upto [of n xs c w i] assms by (simp add: mark_dups_def)
  also have "\<dots> = map (\<lambda>j. if i < j \<and> c = WiFi_SSID w (xs ! j) then -1 else xs ! j) [0..<n]"
    by (rule map_cong) auto
  finally show ?thesis .
qed

lemma remove_duplicates_upto:
  assumes "length xs = n" "- 1 \<notin> set xs" "k \<le> n"
  shows "fold (\<lambda>i indices. if indices ! i = -1 then indices
                else mark_dups w n (WiFi_SSID w (indices ! i)) i indices) [0..<k] xs
         = map (\<lambda>j. if dup_below w xs k j then -1 else xs ! j) [0..<n]"
  using assms(3)
proof (induction k)
  case 0
  then show ?case using assms(1) map_nth [of xs] by (simp add: dup_below_def)
next
  case (Suc k)
  let ?h = "\<lambda>i indices. if indices ! i = -1 then indices
                else mark_dups w n (WiFi_SSID w (indices ! i)) i indices"
  define r where "r = map (\<lambda>j. if dup_below w xs k j then -1 else xs ! j) [0..<n]"
  have k: "k < n" using Suc.prems by simp
  have ih: "fold ?h [0..<k] xs = r" using Suc.IH k by (simp add: r_def)
  have len: "length r = n" by (simp add: r_def)
  have nth_r: "\<And>j. j < n \<Longrightarrow> r ! j = (if dup_below w xs k j then -1 else xs ! j)"
    by (simp add: r_def)
  have ne: "\<And>j. j < n \<Longrightarrow> xs ! j \<noteq> -1"
    using assms(1,2) by (metis nth_mem)
  have step: "fold ?h [0..<Suc k] xs = ?h k r" using ih by simp
  have "?h k r = map (\<lambda>j. if dup_below w xs (Suc k) j then -1 else xs ! j) [0..<n]"
  proof (cases "r ! k = -1")
    case True
    then have dk: "dup_below w xs k k" using nth_r [OF k] ne [OF k] by (simp split: if_splits)
    have "\<And>j. j < n \<Longrightarrow> dup_below w xs (Suc k) j = dup_below w xs k j"
    proof -
      fix j assume "j < n"
      show "dup_below w xs (Suc k) j = dup_below w xs k j"
      proof
        assume "dup_below w xs (Suc k) j"
        then obtain i where i: "i < Suc k" "i < j" "WiFi_SSID w (xs ! i) = WiFi_SSID w (xs ! j)"
          by (auto simp: dup_below_def)
        show "dup_below w xs k j"
        proof (cases "i = k")
          case True
          from dk obtain i' where "i' < k" "WiFi_SSID w (xs ! i') = WiFi_SSID w (xs ! k)"
            by (auto simp: dup_below_def)
          then show ?thesis using i True unfolding dup_below_def
            by (intro exI [of _ i']) simp
        next
          case False
          then show ?thesis using i unfolding dup_below_def by (intro exI [of _ i]) simp
        qed
      next
        assume "dup_below w xs k j"
        then show "dup_below w xs (Suc k) j"
          unfolding dup_below_def using less_SucI by blast
      qed
    qed
    then have "map (\<lambda>j. if dup_below w xs (Suc k) j then -1 else xs ! j) [0..<n] = r"
      unfolding r_def by (intro map_cong) auto
    then show ?thesis using True by simp
  next
    case False
    then have nk: "\<not> dup_below w xs k k" and rk: "r ! k = xs ! k"
      using nth_r [OF k] by (simp_all split: if_splits)
    have "?h k r = mark_dups w n (WiFi_SSID w (xs ! k)) k r" using False rk by simp
    also have "\<dots> = map (\<lambda>j. if k < j \<and> WiFi_SSID w (xs ! k) = WiFi_SSID w (r ! j)
                                then -1 else r ! j) [0..<n]"
      by (rule mark_dups_char [OF len])
    also have "\<dots> = map (\<lambda>j. if dup_below w xs (Suc k) j then -1 else xs ! j) [0..<n]"
    proof (rule map_cong [OF refl])
      fix j assume "j \<in> set [0..<n]"
      then have j: "j < n" by simp
      have split: "dup_below w xs (Suc k) j \<longleftrightarrow>
          dup_below w xs k j \<or> (k < j \<and> WiFi_SSID w (xs ! k) = WiFi_SSID w (xs ! j))"
        unfolding dup_below_def by (auto simp: less_Suc_eq)
      show "(if k < j \<and> WiFi_SSID w (xs ! k) = WiFi_SSID w (r ! j) then -1 else r ! j)
          = (if dup_below w xs (Suc k) j then -1 else xs ! j)"
      proof (cases "dup_below w xs k j")
        case True
        then have "r ! j = -1" using nth_r [OF j] by simp
        moreover have "dup_below w xs (Suc k) j" using True split by simp
        ultimately show ?thesis by simp
      next
        case False
        then have "r ! j = xs ! j" using nth_r [OF j] by simp
        moreover have "dup_below w xs (Suc k) j \<longleftrightarrow>
            (k < j \<and> WiFi_SSID w (xs ! k) = WiFi_SSID w (xs ! j))"
          using False split by simp
        ultimately show ?thesis by simp
      qed
    qed
    finally show ?thesis .
  qed
  then show ?case using step by simp
qed

lemma remove_duplicates_char:
  assumes "length xs = n" "- 1 \<notin> set xs"
  shows "remove_duplicates w n xs
         = map (\<lambda>j. if dup_below w xs j j then -1 else xs ! j) [0..<n]"
proof -
  have "remove_duplicates w n xs = map (\<lambda>j. if dup_below w xs n j then -1 else xs ! j) [0..<n]"
    using remove_duplicates_upto [OF assms, of n w] by (simp add: remove_duplicates_def)
  also have "\<dots> = map (\<lambda>j. if dup_below w xs j j then -1 else xs ! j) [0..<n]"
    by (rule map_cong) (auto simp: dup_below_def)
  finally show ?thesis .
qed

section \<open>The quality step and the whole consolidation\<close>

lemma quality_filter_upto:
  assumes "k \<le> length xs"
  shows "fold (\<lambda>i indices.
             if indices ! i = -1 then indices
             else (let quality = getRSSIasQuality (WiFi_RSSI w (indices ! i))
                   in if \<not> (minimumQuality m = -1 \<or> minimumQuality m < quality)
                      then indices[i := -1] else indices)) [0..<k] xs
         = map (\<lambda>x. if x = -1 \<or> excluded m w x then -1 else x) (take k xs) @ drop k xs"
  using assms
proof (induction k)
  case 0
  then show ?case by simp
next
  case (Suc k)
  let ?F = "\<lambda>x. if x = -1 \<or> excluded m w x then -1 else x"
  let ?b = "\<lambda>i indices.
             if indices ! i = -1 then indices
             else (let quality = getRSSIasQuality (WiFi_RSSI w (indices ! i))
                   in if \<not> (minimumQuality m = -1 \<or> minimumQuality m < quality)
                      then indices[i := -1] else indices)"
  define r where "r = map ?F (take k xs) @ drop k xs"
  have k: "k < length xs" using Suc.prems by simp
  have ih: "fold ?b [0..<k] xs = r" using Suc.IH k by (simp add: r_def)
  have rk: "r ! k = xs ! k" using k by (simp add: r_def nth_append)
  have upd: "r[k := v] = map ?F (take k xs) @ v # drop (Suc k) xs" for v
    using k by (simp add: r_def list_update_append Cons_nth_drop_Suc [symmetric])
  have same: "r = r[k := xs ! k]" using rk by (metis list_update_id)
  have "?b k r = r[k := ?F (xs ! k)]"
  proof (cases "xs ! k = -1 \<or> excluded m w (xs ! k)")
    case True
    show ?thesis
    proof (cases "xs ! k = -1")
      case True
      then have "?b k r = r" using rk by simp
      then show ?thesis using True same by simp
    next
      case False
      then have "excluded m w (xs ! k)" using True by simp
      then show ?thesis using False rk by (simp add: excluded_def Let_def)
    qed
  next
    case False
    then have "?b k r = r" using rk by (auto simp: excluded_def Let_def)
    then show ?thesis using False same by simp
  qed
  also have "\<dots> = map ?F (take k xs) @ ?F (xs ! k) # drop (Suc k) xs" by (rule upd)
  also have "\<dots> = map ?F (take (Suc k) xs) @ drop (Suc k) xs"
    using k by (simp add: take_Suc_conv_app_nth)
  finally have fin: "?b k r = map ?F (take (Suc k) xs) @ drop (Suc k) xs" .
  have step: "fold ?b [0..<Suc k] xs = ?b k r" using ih by simp
  from step fin show ?case by (rule trans)
qed

lemma quality_filter_char:
  "length xs = n \<Longrightarrow>
   quality_filter m w n xs = map (\<lambda>x. if x = -1 \<or> excluded m w x then -1 else x) xs"
  using quality_filter_upto [where k = n and xs = xs and m = m and w = w]
  by (simp add: quality_filter_def)

lemma sorted_indices_length: "length (sorted_indices w n) = n"
  by (simp add: sorted_indices_def rssi_sort_length)

lemma sorted_indices_set: "set (sorted_indices w n) = int ` {0..<n}"
proof -
  have "mset (sorted_indices w n) = mset (map int [0..<n])"
    by (simp add: sorted_indices_def rssi_sort_mset)
  then have "set (sorted_indices w n) = set (map int [0..<n])" by (rule mset_eq_setD)
  then show ?thesis by simp
qed

lemma sorted_indices_range:
  "j < n \<Longrightarrow> 0 \<le> sorted_indices w n ! j \<and> sorted_indices w n ! j < int n"
proof -
  assume "j < n"
  then have "sorted_indices w n ! j \<in> int ` {0..<n}"
    using sorted_indices_set [of w n] sorted_indices_length [of w n] by (metis nth_mem)
  then show ?thesis by auto
qed

lemma sorted_indices_no_sentinel: "- 1 \<notin> set (sorted_indices w n)"
  by (auto simp: sorted_indices_set)

lemma sorted_indices_sorted:
  "a < b \<Longrightarrow> b < n \<Longrightarrow>
   WiFi_RSSI w (sorted_indices w n ! b) \<le> WiFi_RSSI w (sorted_indices w n ! a)"
  unfolding sorted_indices_def by (rule rssi_sort_sorted) simp_all

lemma consolidate_nth:
  assumes "j < n"
  shows "consolidate m w n ! j =
     (if (removeDuplicateAPs m \<and> dup_below w (sorted_indices w n) j j)
         \<or> excluded m w (sorted_indices w n ! j)
      then -1 else sorted_indices w n ! j)"
proof -
  define S where "S = sorted_indices w n"
  define D where "D = (if removeDuplicateAPs m then remove_duplicates w n S else S)"
  have lenS: "length S = n" by (simp add: S_def sorted_indices_length)
  have Sj: "S ! j \<noteq> -1" using sorted_indices_no_sentinel [of w n] lenS assms
    unfolding S_def by (metis nth_mem)
  have D: "D ! j = (if removeDuplicateAPs m \<and> dup_below w S j j then -1 else S ! j)"
    and lenD: "length D = n"
    using assms lenS remove_duplicates_char [OF lenS, of w] sorted_indices_no_sentinel [of w n]
    by (simp_all add: D_def S_def)
  have "consolidate m w n = quality_filter m w n D"
    by (simp add: consolidate_def D_def S_def sorted_indices_def Let_def)
  then have "consolidate m w n ! j = (if D ! j = -1 \<or> excluded m w (D ! j) then -1 else D ! j)"
    using quality_filter_char [OF lenD, of m w] assms lenD by simp
  then show ?thesis using D Sj unfolding S_def by auto
qed

lemma consolidate_length: "length (consolidate m w n) = n"
proof -
  define S where "S = sorted_indices w n"
  define D where "D = (if removeDuplicateAPs m then remove_duplicates w n S else S)"
  have lenS: "length S = n" by (simp add: S_def sorted_indices_length)
  have lenD: "length D = n"
    using lenS remove_duplicates_char [OF lenS, of w] sorted_indices_no_sentinel [of w n]
    by (simp add: D_def S_def)
  have "consolidate m w n = quality_filter m w n D"
    by (simp add: consolidate_def D_def S_def sorted_indices_def Let_def)
  then show ?thesis using quality_filter_char [OF lenD, of m w] lenD by simp
qed

section \<open>The host-name loop\<close>








section \<open>Facts about \<open>scanWifiNetworks\<close> used below\<close>

lemma scan_returned:
  assumes "0 < returned (scanWifiNetworks m w old)"
  shows "0 < WiFi_scanNetworks w"
    and "returned (scanWifiNetworks m w old) = WiFi_scanNetworks w"
    and "indicesptr (scanWifiNetworks m w old)
           = Block (consolidate m w (nat (WiFi_scanNetworks w)))"
  using assms by (auto simp: scanWifiNetworks_def Let_def split: if_splits)

lemma consolidate_survivor:
  assumes "j < n" "consolidate m w n ! j \<noteq> -1"
  shows "consolidate m w n ! j = sorted_indices w n ! j"
    and "\<not> excluded m w (sorted_indices w n ! j)"
    and "removeDuplicateAPs m \<Longrightarrow> \<not> dup_below w (sorted_indices w n) j j"
  using assms consolidate_nth [OF assms(1), of m w] by (auto split: if_splits)

lemma consolidate_slot:
  assumes "j < n"
  shows "consolidate m w n ! j = -1
         \<or> (0 \<le> consolidate m w n ! j \<and> consolidate m w n ! j < int n)"
  using consolidate_nth [OF assms, of m w] sorted_indices_range [OF assms, of w] by auto

text \<open>
  What the quality step does to a slot that the earlier steps left standing: it is marked
  when a minimum is set and the quality is not above it.
\<close>

lemma quality_filter_marks:
  assumes "length xs = n" "j < n" "xs ! j \<noteq> -1"
  shows "quality_filter m w n xs ! j = -1 \<longleftrightarrow>
         minimumQuality m \<noteq> -1 \<and> getRSSIasQuality (WiFi_RSSI w (xs ! j)) \<le> minimumQuality m"
  using assms quality_filter_char [OF assms(1), of m w] by (auto simp: excluded_def)

text \<open>
  A consequence for \<open>handleScan\<close>: when the scan finds nothing, its local pointer still
  holds what it held before the call, and a non-null value is passed to \<open>free\<close>.
\<close>

lemma handleScan_frees_garbage:
  assumes "WiFi_scanNetworks w \<le> 0" "garbage \<noteq> Null"
  shows "calls (handleScan garbage w m)
         = calls m @ no_cache_headers @ [Free garbage, Server_send 200]"
  using assms
  by (cases garbage)
    (simp_all add: handleScan_def scanWifiNetworks_def do_calls_def list_networks_def Let_def)

lemma scan_Block:
  assumes "0 < WiFi_scanNetworks w" "indicesptr (scanWifiNetworks m w old) = Block indices"
  shows "indices = consolidate m w (nat (WiFi_scanNetworks w))"
    and "returned (scanWifiNetworks m w old) = WiFi_scanNetworks w"
  using assms by (auto simp: scanWifiNetworks_def Let_def split: if_splits)

lemma getRSSIasQuality_mono: "a \<le> b \<Longrightarrow> getRSSIasQuality a \<le> getRSSIasQuality b"
  by (simp add: getRSSIasQuality_def)

text \<open>
  Every slot of the sorted array has a first slot of its SSID, at or before it, and the
  network there is at least as strong.
\<close>

lemma first_of_ssid:
  assumes "k < n"
  shows "\<exists>f. f \<le> k \<and> \<not> dup_below w (sorted_indices w n) f f \<and>
           WiFi_SSID w (sorted_indices w n ! f) = WiFi_SSID w (sorted_indices w n ! k) \<and>
           WiFi_RSSI w (sorted_indices w n ! k) \<le> WiFi_RSSI w (sorted_indices w n ! f)"
proof -
  define S where "S = sorted_indices w n"
  define P where "P = (\<lambda>i. WiFi_SSID w (S ! i) = WiFi_SSID w (S ! k))"
  define f where "f = (LEAST i. P i)"
  have Pk: "P k" by (simp add: P_def)
  have Pf: "P f" unfolding f_def using Pk by (rule LeastI)
  have fk: "f \<le> k" unfolding f_def using Pk by (rule Least_le)
  have least: "\<And>i. i < f \<Longrightarrow> \<not> P i" unfolding f_def by (rule not_less_Least)
  have "\<not> dup_below w S f f"
  proof
    assume "dup_below w S f f"
    then obtain i where i: "i < f" "WiFi_SSID w (S ! i) = WiFi_SSID w (S ! f)"
      unfolding dup_below_def by blast
    then have "P i" using Pf by (simp add: P_def)
    then show False using least i(1) by blast
  qed
  moreover have "WiFi_RSSI w (S ! k) \<le> WiFi_RSSI w (S ! f)"
  proof (cases "f = k")
    case True
    then show ?thesis by simp
  next
    case False
    then have "f < k" using fk by simp
    then show ?thesis unfolding S_def using assms by (rule sorted_indices_sorted)
  qed
  ultimately show ?thesis using fk Pf unfolding P_def S_def by blast
qed

lemma example_scan:
  assumes "removeDuplicateAPs m" "minimumQuality m = -1"
  shows "consolidate m (access_points [(''A'', -40), (''B'', -90), (''A'', -60)] True) 3
         = [0, -1, 1]"
  using assms
  by (simp add: consolidate_def access_points_def rssi_sort_def sort_inner_def swap_def
      remove_duplicates_def mark_dups_def quality_filter_def getRSSIasQuality_def
      upt_rec numeral_nat)

section \<open>Properties\<close>

text \<open>
  C1. The quality step is meant to drop the entries whose quality is below the configured
  minimum. The source tests \<open>_minimumQuality < quality\<close> to keep an entry, so an entry
  whose quality equals the minimum is dropped as well: with a minimum of 50, the access point
  heard at -75 dBm (quality 50) is marked with the sentinel.
\<close>

theorem quality_equal_to_minimum_is_marked:
  "getRSSIasQuality (WiFi_RSSI (access_points [(''A'', -75)] True) 0) = 50 \<and>
   \<not> getRSSIasQuality (WiFi_RSSI (access_points [(''A'', -75)] True) 0) < 50 \<and>
   scanWifiNetworks (example_manager\<lparr>minimumQuality := 50\<rparr>)
       (access_points [(''A'', -75)] True) Null
     = \<lparr>returned = 1, indicesptr = Block [-1], malloc_calls = [4]\<rparr>"
  by (simp add: scanWifiNetworks_def consolidate_def access_points_def example_manager_def
      rssi_sort_def sort_inner_def remove_duplicates_def mark_dups_def quality_filter_def
      getRSSIasQuality_def)




text \<open>
  C3. After a scan that returned an index array, the entries that are not the sentinel have
  non-increasing RSSI when the array is read in slot order.
\<close>

theorem surviving_entries_sorted:
  assumes "indicesptr (scanWifiNetworks m w old) = Block indices"
    and "i < j" "int j < returned (scanWifiNetworks m w old)"
    and "indices ! i \<noteq> -1" "indices ! j \<noteq> -1"
  shows "WiFi_RSSI w (indices ! j) \<le> WiFi_RSSI w (indices ! i)"
proof -
  define n where "n = nat (WiFi_scanNetworks w)"
  have pos: "0 < returned (scanWifiNetworks m w old)" using assms(3) by simp
  have ind: "indices = consolidate m w n"
    using scan_returned(3) [OF pos] assms(1) by (simp add: n_def)
  have j: "j < n" using scan_returned(2) [OF pos] assms(3) by (simp add: n_def)
  then have i: "i < n" using assms(2) by simp
  have "indices ! i = sorted_indices w n ! i" "indices ! j = sorted_indices w n ! j"
    using consolidate_survivor(1) [OF i, of m w] consolidate_survivor(1) [OF j, of m w]
      assms(4,5) by (simp_all add: ind)
  then show ?thesis using sorted_indices_sorted [OF assms(2) j, of w] by simp
qed

theorem surviving_entries_sorted_witness:
  "indicesptr (scanWifiNetworks example_manager
      (access_points [(''A'', -40), (''B'', -90), (''A'', -60)] True) Wild) = Block [0, -1, 1] \<and>
   returned (scanWifiNetworks example_manager
      (access_points [(''A'', -40), (''B'', -90), (''A'', -60)] True) Wild) = 3 \<and>
   WiFi_RSSI (access_points [(''A'', -40), (''B'', -90), (''A'', -60)] True) ([0, -1, 1] ! 2)
     \<le> WiFi_RSSI (access_points [(''A'', -40), (''B'', -90), (''A'', -60)] True) ([0, -1, 1] ! 0)"
proof -
  let ?w = "access_points [(''A'', -40), (''B'', -90), (''A'', -60)] True"
  have r: "indicesptr (scanWifiNetworks example_manager ?w Wild) = Block [0, -1, 1]"
    by code_simp
  have n: "returned (scanWifiNetworks example_manager ?w Wild) = 3"
    by code_simp
  show ?thesis
    using n r surviving_entries_sorted [OF r, of 0 2] by simp
qed

text \<open>
  C4. With duplicate removal switched on, an entry that is not the sentinel after the scan
  shares its SSID with no other such entry; it stands in the slot the sort gave it, no
  earlier slot of the sorted order has its SSID, and no scanned network of that SSID is
  stronger. Which slots are kept is fixed as well: a slot holds the sentinel exactly when an
  earlier slot of the sorted order has its SSID or the quality step rejects it, and holds its
  sorted index otherwise; so every scanned network that passes the quality test (all of
  them without quality filtering) has a kept entry of its SSID that is at least as strong.
  On the scan \<open>[("A",-40), ("B",-90), ("A",-60)]\<close> without quality filtering the result is
  \<open>[0, -1, 1]\<close>: the first "A" and "B" are kept, the second "A" is marked.
\<close>

theorem duplicates_removed:
  "(\<forall>m w old indices j.
      removeDuplicateAPs m \<and>
      indicesptr (scanWifiNetworks m w old) = Block indices \<and>
      int j < returned (scanWifiNetworks m w old) \<and> indices ! j \<noteq> -1 \<longrightarrow>
        (\<forall>i. int i < returned (scanWifiNetworks m w old) \<and> i \<noteq> j \<and> indices ! i \<noteq> -1 \<longrightarrow>
            WiFi_SSID w (indices ! i) \<noteq> WiFi_SSID w (indices ! j)) \<and>
        indices ! j = sorted_indices w (nat (WiFi_scanNetworks w)) ! j \<and>
        (\<forall>i < j. WiFi_SSID w (sorted_indices w (nat (WiFi_scanNetworks w)) ! i)
                   \<noteq> WiFi_SSID w (indices ! j)) \<and>
        (\<forall>x. 0 \<le> x \<and> x < WiFi_scanNetworks w \<and> WiFi_SSID w x = WiFi_SSID w (indices ! j) \<longrightarrow>
            WiFi_RSSI w x \<le> WiFi_RSSI w (indices ! j))) \<and>
   (\<forall>m w old indices.
      removeDuplicateAPs m \<and> indicesptr (scanWifiNetworks m w old) = Block indices \<longrightarrow>
        (\<forall>j. int j < returned (scanWifiNetworks m w old) \<longrightarrow>
            indices ! j =
              (if (\<exists>i < j. WiFi_SSID w (sorted_indices w (nat (WiFi_scanNetworks w)) ! i)
                            = WiFi_SSID w (sorted_indices w (nat (WiFi_scanNetworks w)) ! j))
                  \<or> \<not> (minimumQuality m = -1
                         \<or> minimumQuality m
                             < getRSSIasQuality
                                 (WiFi_RSSI w (sorted_indices w (nat (WiFi_scanNetworks w)) ! j)))
               then -1 else sorted_indices w (nat (WiFi_scanNetworks w)) ! j)) \<and>
        (\<forall>x. 0 \<le> x \<and> x < WiFi_scanNetworks w \<and>
              (minimumQuality m = -1 \<or> minimumQuality m < getRSSIasQuality (WiFi_RSSI w x)) \<longrightarrow>
            (\<exists>j. int j < returned (scanWifiNetworks m w old) \<and> indices ! j \<noteq> -1 \<and>
                 WiFi_SSID w (indices ! j) = WiFi_SSID w x \<and>
                 WiFi_RSSI w x \<le> WiFi_RSSI w (indices ! j)))) \<and>
   (\<forall>m old.
      removeDuplicateAPs m \<and> minimumQuality m = -1 \<longrightarrow>
        scanWifiNetworks m (access_points [(''A'', -40), (''B'', -90), (''A'', -60)] True) old
          = \<lparr>returned = 3, indicesptr = Block [0, -1, 1], malloc_calls = [12]\<rparr>)"
proof (intro conjI allI impI)
  fix m :: manager and old
  assume "removeDuplicateAPs m \<and> minimumQuality m = -1"
  then have "consolidate m (access_points [(''A'', -40), (''B'', -90), (''A'', -60)] True) 3
      = [0, -1, 1]"
    by (simp add: example_scan)
  then show "scanWifiNetworks m (access_points [(''A'', -40), (''B'', -90), (''A'', -60)] True) old
      = \<lparr>returned = 3, indicesptr = Block [0, -1, 1], malloc_calls = [12]\<rparr>"
    by (simp add: scanWifiNetworks_def access_points_def)
next
  fix m w old indices j
  assume a: "removeDuplicateAPs m \<and>
      indicesptr (scanWifiNetworks m w old) = Block indices \<and>
      int j < returned (scanWifiNetworks m w old) \<and> indices ! j \<noteq> -1"
  define n where "n = nat (WiFi_scanNetworks w)"
  define S where "S = sorted_indices w n"
  have pos: "0 < returned (scanWifiNetworks m w old)" using a by simp
  have ret: "returned (scanWifiNetworks m w old) = int n"
    using scan_returned(1,2) [OF pos] by (simp add: n_def)
  have ind: "indices = consolidate m w n"
    using scan_returned(3) [OF pos] a by (simp add: n_def)
  have j: "j < n" using a ret by simp
  have surv: "\<And>k. k < n \<Longrightarrow> indices ! k \<noteq> -1 \<Longrightarrow>
      indices ! k = S ! k \<and> \<not> dup_below w S k k"
    using consolidate_survivor(1,3) [of _ n m w] a unfolding ind S_def by blast
  have Sj: "indices ! j = S ! j" and first: "\<not> dup_below w S j j"
    using surv [OF j] a by simp_all
  have first': "\<And>i. i < j \<Longrightarrow> WiFi_SSID w (S ! i) \<noteq> WiFi_SSID w (S ! j)"
    using first unfolding dup_below_def by blast
  show "indices ! j = sorted_indices w (nat (WiFi_scanNetworks w)) ! j"
    using Sj by (simp add: S_def n_def)
  show "WiFi_SSID w (sorted_indices w (nat (WiFi_scanNetworks w)) ! i)
      \<noteq> WiFi_SSID w (indices ! j)" if "i < j" for i
    using that first' Sj by (simp add: S_def n_def)
  show "WiFi_SSID w (indices ! i) \<noteq> WiFi_SSID w (indices ! j)"
    if i: "int i < returned (scanWifiNetworks m w old) \<and> i \<noteq> j \<and> indices ! i \<noteq> -1"
    for i
  proof -
    have i': "i < n" using i ret by simp
    have Si: "indices ! i = S ! i" and firsti: "\<not> dup_below w S i i"
      using surv [OF i'] i by simp_all
    show ?thesis
    proof (cases "i < j")
      case True
      then show ?thesis using first' Si Sj by simp
    next
      case False
      then have "j < i" using i by simp
      then have "WiFi_SSID w (S ! j) \<noteq> WiFi_SSID w (S ! i)"
        using firsti unfolding dup_below_def by blast
      then show ?thesis using Si Sj by simp
    qed
  qed
  show "WiFi_RSSI w x \<le> WiFi_RSSI w (indices ! j)"
    if x: "0 \<le> x \<and> x < WiFi_scanNetworks w \<and> WiFi_SSID w x = WiFi_SSID w (indices ! j)"
    for x
  proof -
    have "x \<in> int ` {0..<n}"
      unfolding n_def using x by (intro image_eqI [of _ _ "nat x"]) simp_all
    then have "x \<in> set S" by (simp add: S_def sorted_indices_set)
    then obtain k where k: "k < n" "S ! k = x"
      using sorted_indices_length [of w n] unfolding S_def by (metis in_set_conv_nth)
    have "\<not> k < j" using first' k x Sj by auto
    then have "k = j \<or> j < k" by auto
    then have "WiFi_RSSI w (S ! k) \<le> WiFi_RSSI w (S ! j)"
      using sorted_indices_sorted [of j k n w] k(1) unfolding S_def by auto
    then show ?thesis using k Sj by simp
  qed
next
  fix m w old indices
  assume a: "removeDuplicateAPs m \<and> indicesptr (scanWifiNetworks m w old) = Block indices"
  define n where "n = nat (WiFi_scanNetworks w)"
  define S where "S = sorted_indices w n"
  show "indices ! j =
      (if (\<exists>i < j. WiFi_SSID w (sorted_indices w (nat (WiFi_scanNetworks w)) ! i)
                    = WiFi_SSID w (sorted_indices w (nat (WiFi_scanNetworks w)) ! j))
          \<or> \<not> (minimumQuality m = -1
                 \<or> minimumQuality m
                     < getRSSIasQuality
                         (WiFi_RSSI w (sorted_indices w (nat (WiFi_scanNetworks w)) ! j)))
       then -1 else sorted_indices w (nat (WiFi_scanNetworks w)) ! j)"
    if "int j < returned (scanWifiNetworks m w old)" for j
  proof -
    have pos: "0 < returned (scanWifiNetworks m w old)" using that by simp
    have ind: "indices = consolidate m w n"
      using scan_returned(3) [OF pos] a by (simp add: n_def)
    have j: "j < n" using scan_returned(1,2) [OF pos] that by (simp add: n_def)
    have "indices ! j =
        (if (removeDuplicateAPs m \<and> dup_below w S j j) \<or> excluded m w (S ! j)
         then -1 else S ! j)"
      unfolding ind S_def by (rule consolidate_nth [OF j])
    moreover have "dup_below w S j j \<longleftrightarrow>
        (\<exists>i < j. WiFi_SSID w (S ! i) = WiFi_SSID w (S ! j))"
      unfolding dup_below_def by blast
    ultimately have "indices ! j =
        (if (\<exists>i < j. WiFi_SSID w (S ! i) = WiFi_SSID w (S ! j))
            \<or> \<not> (minimumQuality m = -1
                   \<or> minimumQuality m < getRSSIasQuality (WiFi_RSSI w (S ! j)))
         then -1 else S ! j)"
      using a by (simp add: excluded_def)
    then show ?thesis unfolding S_def n_def .
  qed
  show "\<exists>j. int j < returned (scanWifiNetworks m w old) \<and> indices ! j \<noteq> -1 \<and>
          WiFi_SSID w (indices ! j) = WiFi_SSID w x \<and>
          WiFi_RSSI w x \<le> WiFi_RSSI w (indices ! j)"
    if x: "0 \<le> x \<and> x < WiFi_scanNetworks w \<and>
        (minimumQuality m = -1 \<or> minimumQuality m < getRSSIasQuality (WiFi_RSSI w x))"
    for x
  proof -
    have pos: "0 < WiFi_scanNetworks w" using x by simp
    have ind: "indices = consolidate m w n"
      and ret: "returned (scanWifiNetworks m w old) = int n"
      using scan_Block [OF pos, of m old indices] a pos by (simp_all add: n_def)
    have "x \<in> int ` {0..<n}"
      unfolding n_def using x by (intro image_eqI [of _ _ "nat x"]) simp_all
    then have "x \<in> set S" by (simp add: S_def sorted_indices_set)
    then obtain k where k: "k < n" "S ! k = x"
      using sorted_indices_length [of w n] unfolding S_def by (metis in_set_conv_nth)
    obtain f where f: "f \<le> k" "\<not> dup_below w S f f"
      "WiFi_SSID w (S ! f) = WiFi_SSID w (S ! k)"
      "WiFi_RSSI w (S ! k) \<le> WiFi_RSSI w (S ! f)"
      using first_of_ssid [OF k(1), of w] unfolding S_def by blast
    have fn: "f < n" using f(1) k(1) by simp
    have "getRSSIasQuality (WiFi_RSSI w x) \<le> getRSSIasQuality (WiFi_RSSI w (S ! f))"
      using f(4) k(2) by (simp add: getRSSIasQuality_mono)
    then have pass: "\<not> excluded m w (S ! f)" using x by (auto simp: excluded_def)
    have "indices ! f =
        (if (removeDuplicateAPs m \<and> dup_below w S f f) \<or> excluded m w (S ! f)
         then -1 else S ! f)"
      unfolding ind S_def by (rule consolidate_nth [OF fn])
    then have kept: "indices ! f = S ! f" using f(2) pass by simp
    have "S ! f \<noteq> -1" using sorted_indices_range [OF fn, of w] unfolding S_def by simp
    then have "int f < returned (scanWifiNetworks m w old) \<and> indices ! f \<noteq> -1 \<and>
        WiFi_SSID w (indices ! f) = WiFi_SSID w x \<and>
        WiFi_RSSI w x \<le> WiFi_RSSI w (indices ! f)"
      using kept f(3,4) k(2) fn ret by simp
    then show ?thesis ..
  qed
qed

theorem duplicates_removed_witness:
  "removeDuplicateAPs example_manager \<and>
   indicesptr (scanWifiNetworks example_manager
      (access_points [(''A'', -40), (''B'', -90), (''A'', -60)] True) Wild) = Block [0, -1, 1] \<and>
   returned (scanWifiNetworks example_manager
      (access_points [(''A'', -40), (''B'', -90), (''A'', -60)] True) Wild) = 3 \<and>
   WiFi_SSID (access_points [(''A'', -40), (''B'', -90), (''A'', -60)] True) ([0, -1, 1] ! 2)
     \<noteq> WiFi_SSID (access_points [(''A'', -40), (''B'', -90), (''A'', -60)] True) ([0, -1, 1] ! 0) \<and>
   (\<exists>j. int j < 3 \<and> [0, -1, 1 :: int] ! j \<noteq> -1 \<and>
      WiFi_SSID (access_points [(''A'', -40), (''B'', -90), (''A'', -60)] True) ([0, -1, 1] ! j)
        = WiFi_SSID (access_points [(''A'', -40), (''B'', -90), (''A'', -60)] True) 2 \<and>
      WiFi_RSSI (access_points [(''A'', -40), (''B'', -90), (''A'', -60)] True) 2
        \<le> WiFi_RSSI (access_points [(''A'', -40), (''B'', -90), (''A'', -60)] True)
             ([0, -1, 1] ! j))"
proof -
  let ?w = "access_points [(''A'', -40), (''B'', -90), (''A'', -60)] True"
  let ?r = "scanWifiNetworks example_manager ?w Wild"
  have d: "removeDuplicateAPs example_manager" by (simp add: example_manager_def)
  have q: "minimumQuality example_manager = -1" by (simp add: example_manager_def)
  have r: "indicesptr ?r = Block [0, -1, 1]" by code_simp
  have n: "returned ?r = 3" by code_simp
  have c: "WiFi_scanNetworks ?w = 3" by (simp add: access_points_def)
  have A: "removeDuplicateAPs example_manager \<and> indicesptr ?r = Block [0, -1, 1] \<and>
      int 0 < returned ?r \<and> [0, -1, 1 :: int] ! 0 \<noteq> -1"
    using d n r by simp
  have B: "\<forall>i. int i < returned ?r \<and> i \<noteq> 0 \<and> [0, -1, 1 :: int] ! i \<noteq> -1 \<longrightarrow>
      WiFi_SSID ?w ([0, -1, 1] ! i) \<noteq> WiFi_SSID ?w ([0, -1, 1] ! 0)"
    using duplicates_removed [THEN conjunct1, rule_format, OF A] by (rule conjunct1)
  have first: "WiFi_SSID ?w ([0, -1, 1] ! 2) \<noteq> WiFi_SSID ?w ([0, -1, 1] ! 0)"
    by (rule B [rule_format, of 2]) (simp add: n)
  have A': "removeDuplicateAPs example_manager \<and> indicesptr ?r = Block [0, -1, 1]"
    using d r by simp
  have C: "\<forall>x. 0 \<le> x \<and> x < WiFi_scanNetworks ?w \<and>
        (minimumQuality example_manager = -1
         \<or> minimumQuality example_manager < getRSSIasQuality (WiFi_RSSI ?w x)) \<longrightarrow>
      (\<exists>j. int j < returned ?r \<and> [0, -1, 1 :: int] ! j \<noteq> -1 \<and>
           WiFi_SSID ?w ([0, -1, 1] ! j) = WiFi_SSID ?w x \<and>
           WiFi_RSSI ?w x \<le> WiFi_RSSI ?w ([0, -1, 1] ! j))"
    using duplicates_removed [THEN conjunct2, THEN conjunct1, rule_format, OF A']
    by (rule conjunct2)
  have "\<exists>j. int j < returned ?r \<and> [0, -1, 1 :: int] ! j \<noteq> -1 \<and>
           WiFi_SSID ?w ([0, -1, 1] ! j) = WiFi_SSID ?w 2 \<and>
           WiFi_RSSI ?w 2 \<le> WiFi_RSSI ?w ([0, -1, 1] ! j)"
    by (rule C [rule_format, of 2]) (simp add: c q)
  then have kept: "\<exists>j. int j < 3 \<and> [0, -1, 1 :: int] ! j \<noteq> -1 \<and>
           WiFi_SSID ?w ([0, -1, 1] ! j) = WiFi_SSID ?w 2 \<and>
           WiFi_RSSI ?w 2 \<le> WiFi_RSSI ?w ([0, -1, 1] ! j)"
    unfolding n .
  show ?thesis
  proof (intro conjI)
    show "removeDuplicateAPs example_manager" by (rule d)
    show "indicesptr ?r = Block [0, -1, 1]" by (rule r)
    show "returned ?r = 3" by (rule n)
    show "WiFi_SSID ?w ([0, -1, 1] ! 2) \<noteq> WiFi_SSID ?w ([0, -1, 1] ! 0)" by (rule first)
    show "\<exists>j. int j < 3 \<and> [0, -1, 1 :: int] ! j \<noteq> -1 \<and>
           WiFi_SSID ?w ([0, -1, 1] ! j) = WiFi_SSID ?w 2 \<and>
           WiFi_RSSI ?w 2 \<le> WiFi_RSSI ?w ([0, -1, 1] ! j)" by (rule kept)
  qed
qed

text \<open>
  C5. \<open>getRSSIasQuality\<close> is 0 up to -100 dBm, 100 from -50 dBm on, and
  \<open>2 * (RSSI + 100)\<close> in between; in particular -100 gives 0, -50 gives 100 and -75
  gives 50.
\<close>

theorem getRSSIasQuality_exact:
  "(RSSI \<le> -100 \<longrightarrow> getRSSIasQuality RSSI = 0) \<and>
   (RSSI \<ge> -50 \<longrightarrow> getRSSIasQuality RSSI = 100) \<and>
   (-100 < RSSI \<and> RSSI < -50 \<longrightarrow> getRSSIasQuality RSSI = 2 * (RSSI + 100)) \<and>
   getRSSIasQuality (-100) = 0 \<and> getRSSIasQuality (-50) = 100 \<and>
   getRSSIasQuality (-75) = 50"
  by (simp add: getRSSIasQuality_def)

theorem getRSSIasQuality_exact_witness:
  "getRSSIasQuality (-120) = 0 \<and> getRSSIasQuality (-30) = 100 \<and>
   getRSSIasQuality (-60) = 2 * (-60 + 100)"
  using getRSSIasQuality_exact [of "-120"] getRSSIasQuality_exact [of "-30"]
    getRSSIasQuality_exact [of "-60"]
  by simp

text \<open>
  C6. When the driver reports a count of zero or below, \<open>scanWifiNetworks\<close> returns 0
  and calls \<open>malloc\<close> not at all, so a negative count never becomes a size; when the
  count is positive and \<open>malloc\<close> fails, it returns 0 with \<open>*indicesptr\<close> set to
  \<open>NULL\<close> and goes no further.
\<close>

theorem scan_degraded_results:
  "(WiFi_scanNetworks w \<le> 0 \<longrightarrow>
      returned (scanWifiNetworks m w old) = 0 \<and> malloc_calls (scanWifiNetworks m w old) = []) \<and>
   (0 < WiFi_scanNetworks w \<and> \<not> malloc_succeeds w (nat (WiFi_scanNetworks w) * 4) \<longrightarrow>
      scanWifiNetworks m w old
        = \<lparr>returned = 0, indicesptr = Null, malloc_calls = [nat (WiFi_scanNetworks w) * 4]\<rparr>)"
  by (simp add: scanWifiNetworks_def Let_def)

theorem scan_degraded_results_witness:
  "WiFi_scanNetworks (access_points [] True\<lparr>WiFi_scanNetworks := -2\<rparr>) \<le> 0 \<and>
   returned (scanWifiNetworks example_manager
      (access_points [] True\<lparr>WiFi_scanNetworks := -2\<rparr>) Wild) = 0 \<and>
   malloc_calls (scanWifiNetworks example_manager
      (access_points [] True\<lparr>WiFi_scanNetworks := -2\<rparr>) Wild) = [] \<and>
   0 < WiFi_scanNetworks (access_points [(''A'', -40)] False) \<and>
   \<not> malloc_succeeds (access_points [(''A'', -40)] False)
       (nat (WiFi_scanNetworks (access_points [(''A'', -40)] False)) * 4) \<and>
   scanWifiNetworks example_manager (access_points [(''A'', -40)] False) Wild
     = \<lparr>returned = 0, indicesptr = Null, malloc_calls = [4]\<rparr>"
  using scan_degraded_results [of "access_points [] True\<lparr>WiFi_scanNetworks := -2\<rparr>"
      example_manager Wild]
    scan_degraded_results [of "access_points [(''A'', -40)] False" example_manager Wild]
  by (simp add: access_points_def)

text \<open>
  C7. For a scan of \<open>n > 0\<close> networks whose index buffer could be allocated,
  \<open>scanWifiNetworks\<close> returns \<open>n\<close> and an index array of exactly \<open>n\<close> slots, each
  holding a scan index between 0 and \<open>n - 1\<close> or the sentinel -1; for \<open>n \<le> 0\<close> it
  returns 0.
\<close>

theorem scan_index_array:
  "(0 < WiFi_scanNetworks w \<and> malloc_succeeds w (nat (WiFi_scanNetworks w) * 4) \<longrightarrow>
      returned (scanWifiNetworks m w old) = WiFi_scanNetworks w \<and>
      (\<exists>indices. indicesptr (scanWifiNetworks m w old) = Block indices \<and>
         int (length indices) = WiFi_scanNetworks w \<and>
         (\<forall>x \<in> set indices. x = -1 \<or> (0 \<le> x \<and> x < WiFi_scanNetworks w)))) \<and>
   (WiFi_scanNetworks w \<le> 0 \<longrightarrow> returned (scanWifiNetworks m w old) = 0)"
proof (intro conjI impI)
  assume a: "0 < WiFi_scanNetworks w \<and> malloc_succeeds w (nat (WiFi_scanNetworks w) * 4)"
  define n where "n = nat (WiFi_scanNetworks w)"
  have n: "int n = WiFi_scanNetworks w" using a by (simp add: n_def)
  have res: "scanWifiNetworks m w old
      = \<lparr>returned = WiFi_scanNetworks w, indicesptr = Block (consolidate m w n),
         malloc_calls = [n * 4]\<rparr>"
    using a by (simp add: scanWifiNetworks_def Let_def n_def)
  show "returned (scanWifiNetworks m w old) = WiFi_scanNetworks w" by (simp add: res)
  have "\<forall>x \<in> set (consolidate m w n). x = -1 \<or> (0 \<le> x \<and> x < int n)"
    using consolidate_slot [of _ n m w] consolidate_length [of m w n]
    by (metis in_set_conv_nth)
  then show "\<exists>indices. indicesptr (scanWifiNetworks m w old) = Block indices \<and>
         int (length indices) = WiFi_scanNetworks w \<and>
         (\<forall>x \<in> set indices. x = -1 \<or> (0 \<le> x \<and> x < WiFi_scanNetworks w))"
    using n by (simp add: res consolidate_length)
next
  assume "WiFi_scanNetworks w \<le> 0"
  then show "returned (scanWifiNetworks m w old) = 0"
    by (simp add: scanWifiNetworks_def Let_def)
qed

theorem scan_index_array_witness:
  "0 < WiFi_scanNetworks (access_points [(''A'', -40), (''B'', -90), (''A'', -60)] True) \<and>
   returned (scanWifiNetworks example_manager
      (access_points [(''A'', -40), (''B'', -90), (''A'', -60)] True) Wild) = 3 \<and>
   (\<exists>indices. indicesptr (scanWifiNetworks example_manager
        (access_points [(''A'', -40), (''B'', -90), (''A'', -60)] True) Wild) = Block indices \<and>
      int (length indices) = 3 \<and> (\<forall>x \<in> set indices. x = -1 \<or> (0 \<le> x \<and> x < 3)))"
  using scan_index_array [of "access_points [(''A'', -40), (''B'', -90), (''A'', -60)] True"
      example_manager Wild]
  by (simp add: access_points_def)

text \<open>
  With one network found and a heap that serves nothing, the count is positive and the
  function returns 0 and a null pointer instead of 1 and an array.
\<close>

theorem scan_index_array_counterexample:
  "0 < WiFi_scanNetworks (access_points [(''A'', -40)] False) \<and>
   returned (scanWifiNetworks example_manager (access_points [(''A'', -40)] False) Wild)
     \<noteq> WiFi_scanNetworks (access_points [(''A'', -40)] False) \<and>
   indicesptr (scanWifiNetworks example_manager (access_points [(''A'', -40)] False) Wild)
     = Null"
  by (simp add: scanWifiNetworks_def access_points_def)

text \<open>
  C8. In \<open>setupConfigPortal\<close>, a non-null AP password shorter than 8 or longer than 63
  characters is dropped: \<open>_apPassword\<close> becomes \<open>NULL\<close>, the soft-AP is started with
  \<open>WiFi.softAP(_apName)\<close> and never with a password, and the setup runs on to the start of
  the web server.
\<close>

theorem invalid_ap_password_ignored:
  assumes "apPassword m = Some p" "length p < 8 \<or> 63 < length p"
  shows "apPassword (setupConfigPortal w m) = None \<and>
         WiFi_softAP (apName m) \<in> set (drop (length (calls m)) (calls (setupConfigPortal w m))) \<and>
         (\<forall>a q. WiFi_softAP_password a q
                   \<notin> set (drop (length (calls m)) (calls (setupConfigPortal w m)))) \<and>
         last (calls (setupConfigPortal w m)) = Server_begin"
  using assms by (auto simp: setupConfigPortal_def do_calls_def Let_def)

theorem invalid_ap_password_ignored_witness:
  "apPassword (example_manager\<lparr>apPassword := Some ''short''\<rparr>) = Some ''short'' \<and>
   length ''short'' < 8 \<and>
   apPassword (setupConfigPortal (access_points [] True)
      (example_manager\<lparr>apPassword := Some ''short''\<rparr>)) = None \<and>
   WiFi_softAP ''ESP_1234''
     \<in> set (calls (setupConfigPortal (access_points [] True)
          (example_manager\<lparr>apPassword := Some ''short''\<rparr>)))"
  using invalid_ap_password_ignored [of "example_manager\<lparr>apPassword := Some ''short''\<rparr>"
      "''short''" "access_points [] True"]
  by (simp add: example_manager_def)

text \<open>
  C9. With a scan count of zero or below, \<open>scanWifiNetworks\<close> returns 0 and leaves
  \<open>*indicesptr\<close> as it found it, whatever that was; with a positive count it assigns
  \<open>*indicesptr\<close>: the fresh array when the allocation succeeds, \<open>NULL\<close> when it fails.
\<close>

theorem scan_pointer_frame:
  "(WiFi_scanNetworks w \<le> 0 \<longrightarrow>
      returned (scanWifiNetworks m w old) = 0 \<and> indicesptr (scanWifiNetworks m w old) = old) \<and>
   (0 < WiFi_scanNetworks w \<longrightarrow>
      indicesptr (scanWifiNetworks m w old)
        = (if malloc_succeeds w (nat (WiFi_scanNetworks w) * 4)
           then Block (consolidate m w (nat (WiFi_scanNetworks w))) else Null))"
  by (simp add: scanWifiNetworks_def Let_def)

theorem scan_pointer_frame_witness:
  "WiFi_scanNetworks (access_points [] True) \<le> 0 \<and>
   returned (scanWifiNetworks example_manager (access_points [] True) Wild) = 0 \<and>
   indicesptr (scanWifiNetworks example_manager (access_points [] True) Wild) = Wild \<and>
   0 < WiFi_scanNetworks (access_points [(''A'', -40)] False) \<and>
   indicesptr (scanWifiNetworks example_manager (access_points [(''A'', -40)] False) Wild)
     = Null"
  using scan_pointer_frame [of "access_points [] True" example_manager Wild]
    scan_pointer_frame [of "access_points [(''A'', -40)] False" example_manager Wild]
  by (simp add: access_points_def)

text \<open>
  C10. \<open>handleRoot\<close>, \<open>handleWifi\<close>, \<open>handleInfo\<close> and \<open>handleScan\<close> leave
  \<open>_configPortalTimeout\<close> at 0, \<open>handleWifiSave\<close> and \<open>handleServerClose\<close> leave it at
  \<open>DEFAULT_PORTAL_TIMEOUT\<close>, whatever the state before the call, in particular whatever
  \<open>setConfigPortalTimeout\<close> had stored.
\<close>

theorem handlers_set_portal_timeout:
  "configPortalTimeout (handleRoot req m) = 0 \<and>
   configPortalTimeout (handleWifi w m) = 0 \<and>
   configPortalTimeout (handleInfo m) = 0 \<and>
   configPortalTimeout (handleScan garbage w m) = 0 \<and>
   configPortalTimeout (handleWifiSave DEFAULT_PORTAL_TIMEOUT req m) = DEFAULT_PORTAL_TIMEOUT \<and>
   configPortalTimeout (handleServerClose DEFAULT_PORTAL_TIMEOUT m) = DEFAULT_PORTAL_TIMEOUT \<and>
   configPortalTimeout (handleRoot req (setConfigPortalTimeout seconds m)) = 0 \<and>
   configPortalTimeout (handleWifi w (setConfigPortalTimeout seconds m)) = 0 \<and>
   configPortalTimeout (handleInfo (setConfigPortalTimeout seconds m)) = 0 \<and>
   configPortalTimeout (handleScan garbage w (setConfigPortalTimeout seconds m)) = 0 \<and>
   configPortalTimeout
     (handleWifiSave DEFAULT_PORTAL_TIMEOUT req (setConfigPortalTimeout seconds m))
     = DEFAULT_PORTAL_TIMEOUT \<and>
   configPortalTimeout (handleServerClose DEFAULT_PORTAL_TIMEOUT (setConfigPortalTimeout seconds m))
     = DEFAULT_PORTAL_TIMEOUT"
  by (simp add: handleRoot_def handleWifi_def handleInfo_def handleScan_def handleWifiSave_def
      handleServerClose_def captivePortal_def do_calls_def Let_def)

theorem handlers_set_portal_timeout_witness:
  "configPortalTimeout (setConfigPortalTimeout 120 example_manager) = 120000 \<and>
   configPortalTimeout (handleRoot \<lparr>hostHeader = ''192.168.4.1'', arg = (\<lambda>_. [])\<rparr>
      (setConfigPortalTimeout 120 example_manager)) = 0 \<and>
   configPortalTimeout (handleWifiSave 60000 \<lparr>hostHeader = ''192.168.4.1'', arg = (\<lambda>_. [])\<rparr>
      (setConfigPortalTimeout 120 example_manager)) = 60000"
  using handlers_set_portal_timeout [of "\<lparr>hostHeader = ''192.168.4.1'', arg = (\<lambda>_. [])\<rparr>"
      example_manager "access_points [] True" Wild 60000 120]
  by (simp add: setConfigPortalTimeout_def example_manager_def)

end
